theory Spec2Isabelle
  imports Complex_Main "HOL-Library.Product_Lexorder"
begin

chapter \<open>The Spotify search-and-play tool\<close>

text \<open>
  A shallow embedding of \<^verbatim>\<open>MiscellaneousTools/SpotifyTools/playback_tools.py\<close>:
  \<^verbatim>\<open>calculate_similarity\<close>, \<^verbatim>\<open>parse_query\<close> and \<^verbatim>\<open>search_and_play\<close>.

  Python strings are modelled as \<^typ>\<open>string\<close>. HOL characters are 8-bit, so the model is
  exact on ASCII text; Unicode case mapping and Unicode white space beyond ASCII are outside it.
\<close>

section \<open>Python string primitives\<close>

text \<open>\<^verbatim>\<open>str.isspace\<close> on one ASCII character: TAB, LF, VT, FF, CR, FS, GS, RS, US and the space.
  The regular expression class \<^verbatim>\<open>\s\<close> of a \<^verbatim>\<open>str\<close> pattern accepts the same ASCII characters.\<close>

definition isspace :: "char \<Rightarrow> bool" where
  "isspace c = (c \<in> set [CHR 0x09, CHR 0x0A, CHR 0x0B, CHR 0x0C, CHR 0x0D,
                           CHR 0x1C, CHR 0x1D, CHR 0x1E, CHR 0x1F, CHR 0x20])"

text \<open>\<^verbatim>\<open>str.lower\<close>, character by character.\<close>

definition lower_char :: "char \<Rightarrow> char" where
  "lower_char c =
     (case map_of (zip ''ABCDEFGHIJKLMNOPQRSTUVWXYZ'' ''abcdefghijklmnopqrstuvwxyz'') c of
        Some d \<Rightarrow> d
      | None \<Rightarrow> c)"

definition lower :: "string \<Rightarrow> string" where
  "lower s = map lower_char s"

text \<open>\<^verbatim>\<open>str.strip()\<close>: leading and trailing white space removed.\<close>

definition strip :: "string \<Rightarrow> string" where
  "strip s = rev (dropWhile isspace (rev (dropWhile isspace s)))"

section \<open>The similarity metric\<close>

text \<open>
  Modelled from the spec: \<^verbatim>\<open>difflib.SequenceMatcher\<close> belongs to Python's standard library and
  is not among the repository's sources. The specification (section 4.2) fixes the metric as
  \<^verbatim>\<open>difflib.SequenceMatcher.ratio\<close>: twice the total length of the matching blocks divided by
  the sum of the two lengths. The definitions below follow the library's algorithm for
  \<^verbatim>\<open>SequenceMatcher(None, a, b)\<close>: no junk predicate, the automatic junk heuristic switched on.

  A block \<open>(i, j, k)\<close> says that \<open>a[i:i+k] = b[j:j+k]\<close>.
\<close>

type_synonym block = "nat \<times> nat \<times> nat"

text \<open>\<^verbatim>\<open>__chain_b\<close>: with \<open>n = len(b) \<ge> 200\<close>, an element that occurs more than \<open>n // 100 + 1\<close>
  times in \<open>b\<close> is popular and loses its entry in \<open>b2j\<close>. With \<^verbatim>\<open>isjunk = None\<close> the junk set is
  empty.\<close>

definition bpopular :: "string \<Rightarrow> char \<Rightarrow> bool" where
  "bpopular b c = (200 \<le> length b \<and> length b div 100 + 1 < count_list b c)"

definition isbjunk :: "string \<Rightarrow> char \<Rightarrow> bool" where
  "isbjunk b c = False"

text \<open>\<^verbatim>\<open>b2j.get(c, [])\<close>: the indices of \<open>c\<close> in \<open>b\<close>, in increasing order.\<close>

definition b2j :: "string \<Rightarrow> char \<Rightarrow> nat list" where
  "b2j b c =
     (if bpopular b c \<or> isbjunk b c then [] else filter (\<lambda>j. b ! j = c) [0..<length b])"

text \<open>
  The inner loop of \<^verbatim>\<open>find_longest_match\<close> for one index \<open>i\<close> of \<open>a\<close>:
  \<^verbatim>\<open>
    for j in b2j.get(a[i], nothing):
        if j < blo: continue
        if j >= bhi: break
        k = newj2len[j] = j2lenget(j-1, 0) + 1
        if k > bestsize:
            besti, bestj, bestsize = i-k+1, j-k+1, k
  \<close>
  The dictionaries \<open>j2len\<close> and \<open>newj2len\<close> hold positive lengths only; they are functions
  that give 0 at a missing key, which is what \<^verbatim>\<open>get(j-1, 0)\<close> reads (the key \<open>-1\<close> is never
  present).
\<close>

fun flm_inner ::
  "nat \<Rightarrow> nat \<Rightarrow> nat \<Rightarrow> (nat \<Rightarrow> nat) \<Rightarrow> nat list \<Rightarrow> (nat \<Rightarrow> nat) \<times> block
     \<Rightarrow> (nat \<Rightarrow> nat) \<times> block" where
  "flm_inner i blo bhi j2len [] st = st"
| "flm_inner i blo bhi j2len (j # js) (newj2len, besti, bestj, bestsize) =
     (if j < blo then flm_inner i blo bhi j2len js (newj2len, besti, bestj, bestsize)
      else if bhi \<le> j then (newj2len, besti, bestj, bestsize)
      else let k = (if j = 0 then 0 else j2len (j - 1)) + 1 in
        if bestsize < k
        then flm_inner i blo bhi j2len js (newj2len(j := k), i + 1 - k, j + 1 - k, k)
        else flm_inner i blo bhi j2len js (newj2len(j := k), besti, bestj, bestsize))"

text \<open>The outer loop \<^verbatim>\<open>for i in range(alo, ahi)\<close>, started at \<open>i = alo\<close>; each round ends with
  \<^verbatim>\<open>j2len = newj2len\<close>.\<close>

function flm_rows ::
  "string \<Rightarrow> string \<Rightarrow> nat \<Rightarrow> nat \<Rightarrow> nat \<Rightarrow> nat \<Rightarrow> (nat \<Rightarrow> nat) \<times> block
     \<Rightarrow> (nat \<Rightarrow> nat) \<times> block" where
  "flm_rows a b blo bhi i ahi (j2len, best) =
     (if i < ahi
      then flm_rows a b blo bhi (i + 1) ahi
             (flm_inner i blo bhi j2len (b2j b (a ! i)) (\<lambda>_. 0, best))
      else (j2len, best))"
  by pat_completeness auto
termination
  by (relation "measure (\<lambda>(a, b, blo, bhi, i, ahi, st). ahi - i)") auto

text \<open>The four \<^verbatim>\<open>while\<close> loops that extend the best block, first over elements that are not
  junk, then over junk; \<open>ok\<close> is the test on \<open>b\<close>'s element.\<close>

function extend_back ::
  "string \<Rightarrow> string \<Rightarrow> (char \<Rightarrow> bool) \<Rightarrow> nat \<Rightarrow> nat \<Rightarrow> block \<Rightarrow> block" where
  "extend_back a b ok alo blo (besti, bestj, bestsize) =
     (if alo < besti \<and> blo < bestj \<and> ok (b ! (bestj - 1)) \<and> a ! (besti - 1) = b ! (bestj - 1)
      then extend_back a b ok alo blo (besti - 1, bestj - 1, bestsize + 1)
      else (besti, bestj, bestsize))"
  by pat_completeness auto
termination
  by (relation "measure (\<lambda>(a, b, ok, alo, blo, besti, bestj, bestsize). besti)") auto

function extend_fwd ::
  "string \<Rightarrow> string \<Rightarrow> (char \<Rightarrow> bool) \<Rightarrow> nat \<Rightarrow> nat \<Rightarrow> block \<Rightarrow> block" where
  "extend_fwd a b ok ahi bhi (besti, bestj, bestsize) =
     (if besti + bestsize < ahi \<and> bestj + bestsize < bhi \<and> ok (b ! (bestj + bestsize))
         \<and> a ! (besti + bestsize) = b ! (bestj + bestsize)
      then extend_fwd a b ok ahi bhi (besti, bestj, bestsize + 1)
      else (besti, bestj, bestsize))"
  by pat_completeness auto
termination
  by (relation "measure (\<lambda>(a, b, ok, ahi, bhi, besti, bestj, bestsize). ahi - (besti + bestsize))")
    auto

definition find_longest_match :: "string \<Rightarrow> string \<Rightarrow> nat \<Rightarrow> nat \<Rightarrow> nat \<Rightarrow> nat \<Rightarrow> block" where
  "find_longest_match a b alo ahi blo bhi =
     (let best0 = snd (flm_rows a b blo bhi alo ahi (\<lambda>_. 0, (alo, blo, 0)));
          best1 = extend_back a b (\<lambda>c. \<not> isbjunk b c) alo blo best0;
          best2 = extend_fwd a b (\<lambda>c. \<not> isbjunk b c) ahi bhi best1;
          best3 = extend_back a b (isbjunk b) alo blo best2
      in extend_fwd a b (isbjunk b) ahi bhi best3)"

subsection \<open>The longest match lies inside its window\<close>

text \<open>The queue loop of \<^verbatim>\<open>get_matching_blocks\<close> terminates because a block of positive
  length lies inside the window it was searched in; this is proved first.\<close>

definition block_ok :: "nat \<Rightarrow> nat \<Rightarrow> nat \<Rightarrow> nat \<Rightarrow> block \<Rightarrow> bool" where
  "block_ok alo ahi blo bhi x =
     (case x of (i, j, k) \<Rightarrow>
        (k = 0 \<and> i = alo \<and> j = blo) \<or> (alo \<le> i \<and> i + k \<le> ahi \<and> blo \<le> j \<and> j + k \<le> bhi))"

definition row_ok :: "nat \<Rightarrow> nat \<Rightarrow> nat \<Rightarrow> (nat \<Rightarrow> nat) \<Rightarrow> bool" where
  "row_ok alo blo i j2len =
     (\<forall>j. j2len j \<le> i - alo \<and> (j2len j \<noteq> 0 \<longrightarrow> blo \<le> j \<and> j2len j \<le> j + 1 - blo))"

lemma flm_inner_ok:
  assumes "alo \<le> i" "i < ahi" "row_ok alo blo i j2len"
    and "row_ok alo blo (i + 1) nj" "block_ok alo ahi blo bhi best"
    and "flm_inner i blo bhi j2len js (nj, best) = (nj', best')"
  shows "row_ok alo blo (i + 1) nj' \<and> block_ok alo ahi blo bhi best'"
  using assms
proof (induction js arbitrary: nj best)
  case Nil
  then show ?case by simp
next
  case (Cons j js)
  obtain bi bj bs where best: "best = (bi, bj, bs)" by (cases best) auto
  show ?case
  proof (cases "j < blo")
    case True
    with Cons best show ?thesis by simp
  next
    case False
    note jblo = this
    show ?thesis
    proof (cases "bhi \<le> j")
      case True
      with Cons jblo best show ?thesis by simp
    next
      case False
      define k where "k = (if j = 0 then 0 else j2len (j - 1)) + 1"
      have "j2len (j - 1) \<le> i - alo"
        using Cons.prems(3) unfolding row_ok_def by blast
      then have k1: "k \<le> i + 1 - alo"
        using Cons.prems(1) unfolding k_def by auto
      have k2: "k \<le> j + 1 - blo"
      proof (cases "j = 0 \<or> j2len (j - 1) = 0")
        case True
        then have "k = 1" unfolding k_def by auto
        with jblo show ?thesis by simp
      next
        case False
        then have "blo \<le> j - 1 \<and> j2len (j - 1) \<le> j - 1 + 1 - blo"
          using Cons.prems(3) unfolding row_ok_def by blast
        with False show ?thesis unfolding k_def by auto
      qed
      have k0: "0 < k" unfolding k_def by simp
      have nj': "row_ok alo blo (i + 1) (nj(j := k))"
        using Cons.prems(4) k1 k2 jblo unfolding row_ok_def by auto
      have b': "block_ok alo ahi blo bhi (i + 1 - k, j + 1 - k, k)"
        using k0 k1 k2 Cons.prems(1,2) jblo False unfolding block_ok_def by auto
      show ?thesis
      proof (cases "bs < k")
        case True
        have "flm_inner i blo bhi j2len js (nj(j := k), i + 1 - k, j + 1 - k, k) = (nj', best')"
          using Cons.prems(6) jblo False True best unfolding k_def by (simp add: Let_def)
        from Cons.IH[OF Cons.prems(1,2,3) nj' b' this] show ?thesis .
      next
        case F2: False
        have "flm_inner i blo bhi j2len js (nj(j := k), best) = (nj', best')"
          using Cons.prems(6) jblo False F2 best unfolding k_def by (simp add: Let_def)
        from Cons.IH[OF Cons.prems(1,2,3) nj' Cons.prems(5) this] show ?thesis .
      qed
    qed
  qed
qed

declare flm_rows.simps [simp del] extend_back.simps [simp del] extend_fwd.simps [simp del]

lemma flm_rows_step:
  "i < ahi \<Longrightarrow> flm_rows a b blo bhi i ahi (j2len, best) =
     flm_rows a b blo bhi (i + 1) ahi (flm_inner i blo bhi j2len (b2j b (a ! i)) (\<lambda>_. 0, best))"
  by (subst flm_rows.simps) simp

lemma flm_rows_stop:
  "\<not> i < ahi \<Longrightarrow> flm_rows a b blo bhi i ahi (j2len, best) = (j2len, best)"
  by (subst flm_rows.simps) simp

lemma extend_back_step:
  "alo < besti \<and> blo < bestj \<and> ok (b ! (bestj - 1)) \<and> a ! (besti - 1) = b ! (bestj - 1) \<Longrightarrow>
   extend_back a b ok alo blo (besti, bestj, bestsize) =
     extend_back a b ok alo blo (besti - 1, bestj - 1, bestsize + 1)"
  by (subst extend_back.simps) simp

lemma extend_back_stop:
  "\<not> (alo < besti \<and> blo < bestj \<and> ok (b ! (bestj - 1)) \<and> a ! (besti - 1) = b ! (bestj - 1)) \<Longrightarrow>
   extend_back a b ok alo blo (besti, bestj, bestsize) = (besti, bestj, bestsize)"
  by (subst extend_back.simps) auto

lemma extend_fwd_step:
  "besti + bestsize < ahi \<and> bestj + bestsize < bhi \<and> ok (b ! (bestj + bestsize))
     \<and> a ! (besti + bestsize) = b ! (bestj + bestsize) \<Longrightarrow>
   extend_fwd a b ok ahi bhi (besti, bestj, bestsize) =
     extend_fwd a b ok ahi bhi (besti, bestj, bestsize + 1)"
  by (subst extend_fwd.simps) simp

lemma extend_fwd_stop:
  "\<not> (besti + bestsize < ahi \<and> bestj + bestsize < bhi \<and> ok (b ! (bestj + bestsize))
     \<and> a ! (besti + bestsize) = b ! (bestj + bestsize)) \<Longrightarrow>
   extend_fwd a b ok ahi bhi (besti, bestj, bestsize) = (besti, bestj, bestsize)"
  by (subst extend_fwd.simps) auto

lemma flm_rows_ok:
  assumes "alo \<le> i" "row_ok alo blo i j2len" "block_ok alo ahi blo bhi best"
    and "flm_rows a b blo bhi i ahi (j2len, best) = (j2len', best')"
  shows "block_ok alo ahi blo bhi best'"
  using assms
proof (induction a b blo bhi i ahi "(j2len, best)" arbitrary: j2len best rule: flm_rows.induct)
  case (1 a b blo bhi i ahi j2len best)
  show ?case
  proof (cases "i < ahi")
    case True
    obtain nj nb where
      step: "flm_inner i blo bhi j2len (b2j b (a ! i)) (\<lambda>_. 0, best) = (nj, nb)"
      by (cases "flm_inner i blo bhi j2len (b2j b (a ! i)) (\<lambda>_. 0, best)") auto
    have z: "row_ok alo blo (i + 1) (\<lambda>_. 0)" unfolding row_ok_def by simp
    from flm_inner_ok[OF "1.prems"(1) True "1.prems"(2) z "1.prems"(3) step]
    have ok: "row_ok alo blo (i + 1) nj" "block_ok alo ahi blo bhi nb" by auto
    have le: "alo \<le> i + 1" using "1.prems"(1) by simp
    have "flm_rows a b blo bhi (i + 1) ahi (nj, nb) = (j2len', best')"
      using "1.prems"(4) step by (simp add: flm_rows_step[OF True])
    from "1.hyps"[OF True step le ok this] show ?thesis .
  next
    case False
    from "1.prems"(4) have "best' = best" by (simp add: flm_rows_stop[OF False])
    with "1.prems"(3) show ?thesis by simp
  qed
qed

lemma extend_back_ok:
  "block_ok alo ahi blo bhi x \<Longrightarrow> block_ok alo ahi blo bhi (extend_back a b ok alo blo x)"
proof (induction a b ok alo blo x rule: extend_back.induct)
  case (1 a b ok alo blo besti bestj bestsize)
  show ?case
  proof (cases "alo < besti \<and> blo < bestj \<and> ok (b ! (bestj - 1))
                \<and> a ! (besti - 1) = b ! (bestj - 1)")
    case True
    have "block_ok alo ahi blo bhi (besti - 1, bestj - 1, bestsize + 1)"
      using "1.prems" True unfolding block_ok_def by auto
    moreover have "extend_back a b ok alo blo (besti, bestj, bestsize) =
        extend_back a b ok alo blo (besti - 1, bestj - 1, bestsize + 1)"
      using True by (rule extend_back_step)
    ultimately show ?thesis using "1.IH"[OF True] by simp
  next
    case False
    then have "extend_back a b ok alo blo (besti, bestj, bestsize) = (besti, bestj, bestsize)"
      by (rule extend_back_stop)
    with "1.prems" show ?thesis by simp
  qed
qed

lemma extend_fwd_ok:
  "block_ok alo ahi blo bhi x \<Longrightarrow> block_ok alo ahi blo bhi (extend_fwd a b ok ahi bhi x)"
proof (induction a b ok ahi bhi x rule: extend_fwd.induct)
  case (1 a b ok ahi bhi besti bestj bestsize)
  show ?case
  proof (cases "besti + bestsize < ahi \<and> bestj + bestsize < bhi \<and> ok (b ! (bestj + bestsize))
                \<and> a ! (besti + bestsize) = b ! (bestj + bestsize)")
    case True
    have "block_ok alo ahi blo bhi (besti, bestj, bestsize + 1)"
      using "1.prems" True unfolding block_ok_def by auto
    moreover have "extend_fwd a b ok ahi bhi (besti, bestj, bestsize) =
        extend_fwd a b ok ahi bhi (besti, bestj, bestsize + 1)"
      using True by (rule extend_fwd_step)
    ultimately show ?thesis using "1.IH"[OF True] by simp
  next
    case False
    then have "extend_fwd a b ok ahi bhi (besti, bestj, bestsize) = (besti, bestj, bestsize)"
      by (rule extend_fwd_stop)
    with "1.prems" show ?thesis by simp
  qed
qed

lemma find_longest_match_ok:
  "block_ok alo ahi blo bhi (find_longest_match a b alo ahi blo bhi)"
proof -
  obtain j2 b0 where r: "flm_rows a b blo bhi alo ahi (\<lambda>_. 0, (alo, blo, 0)) = (j2, b0)"
    by (cases "flm_rows a b blo bhi alo ahi (\<lambda>_. 0, (alo, blo, 0))") auto
  have "row_ok alo blo alo (\<lambda>_. 0)" unfolding row_ok_def by simp
  moreover have "block_ok alo ahi blo bhi (alo, blo, 0)" unfolding block_ok_def by simp
  ultimately have "block_ok alo ahi blo bhi b0"
    using flm_rows_ok[OF _ _ _ r] by simp
  then show ?thesis
    unfolding find_longest_match_def Let_def r snd_conv
    by (intro extend_fwd_ok extend_back_ok)
qed

lemma find_longest_match_bounds:
  assumes "find_longest_match a b alo ahi blo bhi = (i, j, k)" "k \<noteq> 0"
  shows "alo \<le> i \<and> i + k \<le> ahi \<and> blo \<le> j \<and> j + k \<le> bhi"
  using find_longest_match_ok[of alo ahi blo bhi a b] assms unfolding block_ok_def by simp

subsection \<open>Matching blocks and the ratio\<close>

text \<open>
  The queue loop of \<^verbatim>\<open>get_matching_blocks\<close>. The Python list \<open>queue\<close> is used as a stack
  (\<^verbatim>\<open>pop()\<close> takes the last element); here the head of the list is the top of the stack.
  \<^verbatim>\<open>
    while queue:
        alo, ahi, blo, bhi = queue.pop()
        i, j, k = x = self.find_longest_match(alo, ahi, blo, bhi)
        if k:
            matching_blocks.append(x)
            if alo < i and blo < j:
                queue.append((alo, i, blo, j))
            if i+k < ahi and j+k < bhi:
                queue.append((i+k, ahi, j+k, bhi))
  \<close>
\<close>

function gmb_loop ::
  "string \<Rightarrow> string \<Rightarrow> (nat \<times> nat \<times> nat \<times> nat) list \<Rightarrow> block list \<Rightarrow> block list" where
  "gmb_loop a b [] matching_blocks = matching_blocks"
| "gmb_loop a b ((alo, ahi, blo, bhi) # queue) matching_blocks =
     (case find_longest_match a b alo ahi blo bhi of (i, j, k) \<Rightarrow>
        if k \<noteq> 0
        then gmb_loop a b
               ((if i + k < ahi \<and> j + k < bhi then [(i + k, ahi, j + k, bhi)] else []) @
                (if alo < i \<and> blo < j then [(alo, i, blo, j)] else []) @ queue)
               (matching_blocks @ [(i, j, k)])
        else gmb_loop a b queue matching_blocks)"
  by pat_completeness auto
termination
proof (relation "measure (\<lambda>(a, b, queue, mb).
         sum_list (map (\<lambda>(alo, ahi, blo, bhi). 2 * (ahi - alo) + 1) queue))", goal_cases)
  case 1
  then show ?case by simp
next
  case (2 a b alo ahi blo bhi queue mb x y xa ya)
  then have "find_longest_match a b alo ahi blo bhi = (x, xa, ya)" by simp
  from find_longest_match_bounds[OF this "2"(3)] "2"(3)
  have "2 * (ahi - (x + ya)) + 1 + (2 * (x - alo) + 1) < 2 * (ahi - alo) + 1"
    by arith
  then show ?case by auto
next
  case 3
  then show ?case by simp
qed

text \<open>
  After \<^verbatim>\<open>matching_blocks.sort()\<close>, adjacent blocks are merged:
  \<^verbatim>\<open>
    i1 = j1 = k1 = 0
    non_adjacent = []
    for i2, j2, k2 in matching_blocks:
        if i1 + k1 == i2 and j1 + k1 == j2:
            k1 += k2
        else:
            if k1:
                non_adjacent.append((i1, j1, k1))
            i1, j1, k1 = i2, j2, k2
    if k1:
        non_adjacent.append((i1, j1, k1))
    non_adjacent.append( (la, lb, 0) )
  \<close>
\<close>

fun collapse :: "block \<Rightarrow> block list \<Rightarrow> block list \<Rightarrow> block list" where
  "collapse (i1, j1, k1) non_adjacent [] =
     (if k1 \<noteq> 0 then non_adjacent @ [(i1, j1, k1)] else non_adjacent)"
| "collapse (i1, j1, k1) non_adjacent ((i2, j2, k2) # rest) =
     (if i1 + k1 = i2 \<and> j1 + k1 = j2
      then collapse (i1, j1, k1 + k2) non_adjacent rest
      else collapse (i2, j2, k2)
             (if k1 \<noteq> 0 then non_adjacent @ [(i1, j1, k1)] else non_adjacent) rest)"

definition get_matching_blocks :: "string \<Rightarrow> string \<Rightarrow> block list" where
  "get_matching_blocks a b =
     collapse (0, 0, 0) [] (sort (gmb_loop a b [(0, length a, 0, length b)] []))
       @ [(length a, length b, 0)]"

text \<open>
  \<^verbatim>\<open>ratio\<close> and \<^verbatim>\<open>_calculate_ratio\<close>: \<open>2.0 * matches / length\<close>, and \<open>1.0\<close> when both sequences
  are empty. Python computes the quotient in double precision; the model keeps the exact
  quotient as a rational number. The two agree in every comparison the program makes
  (\<open>> 0.6\<close>, \<open>> highest_similarity\<close>) as long as the lengths stay below \<open>2\<^sup>2\<^sup>6\<close>: distinct
  quotients with such denominators differ by more than the spacing of doubles, and the double
  nearest to \<open>0.6\<close> lies below \<open>3/5\<close> by less than that.
\<close>

definition ratio :: "string \<Rightarrow> string \<Rightarrow> rat" where
  "ratio a b =
     (let matches = sum_list (map (\<lambda>(i, j, k). k) (get_matching_blocks a b));
          len = length a + length b
      in if len \<noteq> 0 then 2 * of_nat matches / of_nat len else 1)"

text \<open>\<^verbatim>\<open>calculate_similarity(a, b)\<close> of the repository:
  \<^verbatim>\<open>return SequenceMatcher(None, a.lower(), b.lower()).ratio()\<close>\<close>

definition calculate_similarity :: "string \<Rightarrow> string \<Rightarrow> rat" where
  "calculate_similarity a b = ratio (lower a) (lower b)"

section \<open>Regular expressions\<close>

text \<open>
  \<^verbatim>\<open>parse_query\<close> matches its two patterns with \<^verbatim>\<open>re.match(pattern, query, re.IGNORECASE)\<close>.
  The fragment of Python's regular expressions they use is modelled with its backtracking
  order: a matcher returns the list of all ways to match from a position, in the order in
  which Python's engine tries them, so the head of the list is the match Python reports.
  \<^item> \<open>Dot\<close> is \<^verbatim>\<open>.\<close> (any character but the newline), \<open>Space\<close> is \<^verbatim>\<open>\s\<close>, \<open>Lit c\<close> a literal
    character, compared without regard to case;
  \<^item> \<open>Plus\<close> and \<open>Star\<close> are the greedy repetitions \<^verbatim>\<open>x+\<close> and \<^verbatim>\<open>x*\<close> of one atom: the longest
    run is tried first;
  \<^item> \<open>Alt\<close> tries its left branch first; \<open>Group n\<close> is the capturing group \<open>n\<close>;
  \<^item> \<open>Bol\<close> is \<^verbatim>\<open>^\<close>; \<open>Eol\<close> is \<^verbatim>\<open>$\<close>, which matches at the end of the string and just before
    a newline that ends the string.
\<close>

datatype atom = Dot | Space | Lit char

datatype regex =
    Eps
  | Atom atom
  | Plus atom
  | Star atom
  | Seq regex regex
  | Alt regex regex
  | Group nat regex
  | Bol
  | Eol

fun atom_match :: "atom \<Rightarrow> char \<Rightarrow> bool" where
  "atom_match Dot c = (c \<noteq> CHR 0x0A)"
| "atom_match Space c = isspace c"
| "atom_match (Lit l) c = (lower_char c = lower_char l)"

text \<open>The matcher works on the input that is still to be read, \<open>s\<close>, and the number \<open>p\<close> of
  characters read before it. A result is the position after the match, the input left, and
  the captured groups. \<open>run a s\<close> is the length of the longest prefix of \<open>s\<close> whose characters
  all match the atom.\<close>

definition run :: "atom \<Rightarrow> string \<Rightarrow> nat" where
  "run a s = length (takeWhile (atom_match a) s)"

type_synonym captures = "nat \<rightharpoonup> string"

fun rmatch :: "regex \<Rightarrow> nat \<Rightarrow> string \<Rightarrow> captures \<Rightarrow> (nat \<times> string \<times> captures) list" where
  "rmatch Eps p s c = [(p, s, c)]"
| "rmatch (Atom a) p s c =
     (case s of [] \<Rightarrow> [] | x # s' \<Rightarrow> if atom_match a x then [(p + 1, s', c)] else [])"
| "rmatch (Plus a) p s c = map (\<lambda>n. (p + n, drop n s, c)) (rev [1..<Suc (run a s)])"
| "rmatch (Star a) p s c = map (\<lambda>n. (p + n, drop n s, c)) (rev [0..<Suc (run a s)])"
| "rmatch (Seq r1 r2) p s c =
     concat (map (\<lambda>(p', s', c'). rmatch r2 p' s' c') (rmatch r1 p s c))"
| "rmatch (Alt r1 r2) p s c = rmatch r1 p s c @ rmatch r2 p s c"
| "rmatch (Group g r) p s c =
     map (\<lambda>(p', s', c'). (p', s', c'(g \<mapsto> take (p' - p) s))) (rmatch r p s c)"
| "rmatch Bol p s c = (if p = 0 then [(p, s, c)] else [])"
| "rmatch Eol p s c = (if s = [] \<or> s = [CHR 0x0A] then [(p, s, c)] else [])"

text \<open>\<^verbatim>\<open>re.match\<close>: the first match from position 0, or \<open>None\<close>.\<close>

definition re_match :: "regex \<Rightarrow> string \<Rightarrow> captures option" where
  "re_match r s = (case rmatch r 0 s Map.empty of [] \<Rightarrow> None | (p, s', c) # _ \<Rightarrow> Some c)"

text \<open>\<^verbatim>\<open>match.group(n)\<close> of a group that took part in the match.\<close>

definition group :: "captures \<Rightarrow> nat \<Rightarrow> string" where
  "group m n = the (m n)"

fun literal :: "string \<Rightarrow> regex" where
  "literal [] = Eps"
| "literal (c # cs) = Seq (Atom (Lit c)) (literal cs)"

section \<open>parse\_query\<close>

text \<open>
  \<^verbatim>\<open>
    patterns = [
        r'^(.+)\s+(?:by|from|of)\s+(.+)$',  # "Song by Artist"
        r'^(.+)\s*-\s*(.+)$',               # "Song - Artist"
    ]
  \<close>
\<close>

definition pattern_by :: regex where
  "pattern_by =
     Seq Bol (Seq (Group 1 (Plus Dot)) (Seq (Plus Space)
       (Seq (Alt (literal ''by'') (Alt (literal ''from'') (literal ''of'')))
         (Seq (Plus Space) (Seq (Group 2 (Plus Dot)) Eol)))))"

definition pattern_dash :: regex where
  "pattern_dash =
     Seq Bol (Seq (Group 1 (Plus Dot)) (Seq (Star Space)
       (Seq (literal ''-'') (Seq (Star Space) (Seq (Group 2 (Plus Dot)) Eol)))))"

definition patterns :: "regex list" where
  "patterns = [pattern_by, pattern_dash]"

record parsed_query =
  song :: string
  artist :: "string option"
  search_type :: string

text \<open>The loop \<^verbatim>\<open>for pattern in patterns\<close> with its early \<^verbatim>\<open>return\<close>, and the default after it.\<close>

fun parse_loop :: "regex list \<Rightarrow> string \<Rightarrow> parsed_query" where
  "parse_loop [] query = \<lparr>song = strip query, artist = None, search_type = ''track''\<rparr>"
| "parse_loop (pattern # rest) query =
     (case re_match pattern query of
        Some m \<Rightarrow> \<lparr>song = strip (group m 1), artist = Some (strip (group m 2)),
                   search_type = ''track''\<rparr>
      | None \<Rightarrow> parse_loop rest query)"

definition parse_query :: "string \<Rightarrow> parsed_query" where
  "parse_query query = parse_loop patterns query"

subsection \<open>What the two patterns accept\<close>






section \<open>Tracks, devices and the outside world\<close>

text \<open>A track of the search result: \<^verbatim>\<open>track['uri']\<close>, \<^verbatim>\<open>track['name']\<close> and the names
  \<^verbatim>\<open>track['artists'][n]['name']\<close> in order. A playback device: \<^verbatim>\<open>device['id']\<close>,
  \<^verbatim>\<open>device['name']\<close>, \<^verbatim>\<open>device['is_active']\<close>.\<close>

record track =
  uri :: string
  name :: string
  artists :: "string list"

record device =
  device_id :: string
  device_name :: string
  is_active :: bool

text \<open>What a call can raise: a failure of the Spotify client (\<open>TransportError\<close>), of
  \<^verbatim>\<open>subprocess.run\<close> (\<open>LaunchError\<close>), \<^verbatim>\<open>track['artists'][0]\<close> on a track without artists
  (\<open>IndexError\<close>), and a call with arguments that the called object does not take
  (\<open>TypeError\<close>).\<close>

datatype exn = TransportError | LaunchError | IndexError | TypeError

text \<open>The lines the function prints.\<close>

datatype message =
    NoTrackFound string
  | PlayingOnActive string string string
  | PlayingOn string string string
  | NoDevices
  | AttemptingLaunch
  | AppLaunched
  | FailedToLaunch exn
  | NoDevicesAfterRetrying

text \<open>The effects of a run, in order: the calls of the Spotify client, of \<^verbatim>\<open>subprocess.run\<close>
  and \<^verbatim>\<open>time.sleep\<close>, and the printed lines. \<open>Invoked query retrying\<close> marks each entry into
  the body of \<^verbatim>\<open>search_and_play\<close>.\<close>

datatype event =
    Invoked string bool
  | Search string string nat
  | Devices
  | StartPlayback string "string list"
  | Launch
  | Sleep nat
  | Print message

text \<open>The outside world answers each call with a value or an exception; the answer may
  depend on the arguments and on how many calls of that kind came before.\<close>

record env =
  search_api :: "nat \<Rightarrow> string \<Rightarrow> string \<Rightarrow> nat \<Rightarrow> exn + track list"
  devices_api :: "nat \<Rightarrow> exn + device list"
  start_playback_api :: "nat \<Rightarrow> string \<Rightarrow> string list \<Rightarrow> exn + unit"
  launch_api :: "nat \<Rightarrow> exn + unit"

fun is_search :: "event \<Rightarrow> bool" where
  "is_search (Search q ty limit) = True"
| "is_search e = False"

fun is_devices :: "event \<Rightarrow> bool" where
  "is_devices Devices = True"
| "is_devices e = False"

fun is_play :: "event \<Rightarrow> bool" where
  "is_play (StartPlayback d us) = True"
| "is_play e = False"

fun is_launch :: "event \<Rightarrow> bool" where
  "is_launch Launch = True"
| "is_launch e = False"

fun is_invoked :: "event \<Rightarrow> bool" where
  "is_invoked (Invoked q r) = True"
| "is_invoked e = False"

definition calls :: "(event \<Rightarrow> bool) \<Rightarrow> event list \<Rightarrow> nat" where
  "calls kind evs = length (filter kind evs)"

text \<open>\<^verbatim>\<open>sp.search(q=..., type=..., limit=...)\<close> followed by \<^verbatim>\<open>results['tracks']['items']\<close>,
  \<^verbatim>\<open>sp.devices()['devices']\<close>, \<^verbatim>\<open>sp.start_playback(device_id=..., uris=...)\<close> and
  \<^verbatim>\<open>subprocess.run(["open", "-a", "Spotify"])\<close>.\<close>

definition sp_search ::
  "env \<Rightarrow> string \<Rightarrow> string \<Rightarrow> nat \<Rightarrow> event list \<Rightarrow> (exn + track list) \<times> event list" where
  "sp_search world q ty limit evs =
     (search_api world (calls is_search evs) q ty limit, evs @ [Search q ty limit])"

definition sp_devices :: "env \<Rightarrow> event list \<Rightarrow> (exn + device list) \<times> event list" where
  "sp_devices world evs = (devices_api world (calls is_devices evs), evs @ [Devices])"

definition sp_start_playback ::
  "env \<Rightarrow> string \<Rightarrow> string list \<Rightarrow> event list \<Rightarrow> (exn + unit) \<times> event list" where
  "sp_start_playback world d uris evs =
     (start_playback_api world (calls is_play evs) d uris, evs @ [StartPlayback d uris])"

definition subprocess_run :: "env \<Rightarrow> event list \<Rightarrow> (exn + unit) \<times> event list" where
  "subprocess_run world evs = (launch_api world (calls is_launch evs), evs @ [Launch])"

section \<open>Selecting the track\<close>

text \<open>
  \<^verbatim>\<open>
    tracks = [
        track for track in tracks
        if calculate_similarity(parsed_query['artist'], track['artists'][0]['name']) > 0.6
    ]
  \<close>
  \<^verbatim>\<open>track['artists'][0]\<close> raises \<open>IndexError\<close> on a track without artists.
\<close>

fun filter_by_artist :: "string \<Rightarrow> track list \<Rightarrow> exn + track list" where
  "filter_by_artist a [] = Inr []"
| "filter_by_artist a (t # ts) =
     (case artists t of
        [] \<Rightarrow> Inl IndexError
      | n # _ \<Rightarrow>
          (case filter_by_artist a ts of
             Inl e \<Rightarrow> Inl e
           | Inr kept \<Rightarrow> Inr (if 6 / 10 < calculate_similarity a n then t # kept else kept)))"

text \<open>
  \<^verbatim>\<open>
    most_relevant_track = None
    highest_similarity = 0
    for track in tracks:
        similarity = calculate_similarity(parsed_query['song'], track['name'])
        if similarity > highest_similarity:
            highest_similarity = similarity
            most_relevant_track = track
  \<close>
\<close>

fun select_track :: "string \<Rightarrow> track list \<Rightarrow> track option \<times> rat \<Rightarrow> track option \<times> rat" where
  "select_track s [] st = st"
| "select_track s (t # ts) (most_relevant_track, highest_similarity) =
     (let similarity = calculate_similarity s (name t) in
      if highest_similarity < similarity
      then select_track s ts (Some t, similarity)
      else select_track s ts (most_relevant_track, highest_similarity))"

text \<open>\<^verbatim>\<open>if parsed_query['artist']:\<close> holds for an artist that is neither \<open>None\<close> nor the empty
  string.\<close>

definition artist_given :: "parsed_query \<Rightarrow> bool" where
  "artist_given parsed = (case artist parsed of None \<Rightarrow> False | Some a \<Rightarrow> a \<noteq> [])"

text \<open>Lines 83 to 88: the candidates that the selection loop sees.\<close>

definition filtered :: "parsed_query \<Rightarrow> track list \<Rightarrow> exn + track list" where
  "filtered parsed tracks =
     (if artist_given parsed then filter_by_artist (the (artist parsed)) tracks else Inr tracks)"

text \<open>Lines 83 to 98 of \<^verbatim>\<open>search_and_play\<close>: the candidate-selection step (\<open>rank\<close> in the
  specification).\<close>

definition rank :: "parsed_query \<Rightarrow> track list \<Rightarrow> exn + track option" where
  "rank parsed tracks =
     (case filtered parsed tracks of
        Inl e \<Rightarrow> Inl e
      | Inr kept \<Rightarrow> Inr (fst (select_track (song parsed) kept (None, 0))))"

section \<open>Playing the track\<close>

text \<open>
  Lines 110 to 122: the device list is not empty.
  \<^verbatim>\<open>
    for device in available_devices:
        if device['is_active']:
            device_id = device['id']
            sp.start_playback(device_id=device_id, uris=[most_relevant_track['uri']])
            print(f'Playing "..." by {most_relevant_track["artists"][0]["name"]} on active device: ...')
            return True
    device_id = available_devices[0]['id']
    sp.start_playback(device_id=device_id, uris=[most_relevant_track['uri']])
    print(f'Playing "..." by {most_relevant_track["artists"][0]["name"]} on device: ...')
    return True
  \<close>
  The \<^verbatim>\<open>print\<close> reads \<^verbatim>\<open>most_relevant_track["artists"][0]\<close> after the playback has started.
\<close>

definition play_on :: "env \<Rightarrow> track \<Rightarrow> device \<Rightarrow> (string \<Rightarrow> string \<Rightarrow> string \<Rightarrow> message)
    \<Rightarrow> event list \<Rightarrow> (exn + bool) \<times> event list" where
  "play_on world t d msg evs =
     (case sp_start_playback world (device_id d) [uri t] evs of
        (Inl e, evs') \<Rightarrow> (Inl e, evs')
      | (Inr u, evs') \<Rightarrow>
          (case artists t of
             [] \<Rightarrow> (Inl IndexError, evs')
           | n # _ \<Rightarrow> (Inr True, evs' @ [Print (msg (name t) n (device_name d))])))"

definition dispatch :: "env \<Rightarrow> track \<Rightarrow> device list \<Rightarrow> event list \<Rightarrow> (exn + bool) \<times> event list" where
  "dispatch world t available_devices evs =
     (case find is_active available_devices of
        Some d \<Rightarrow> play_on world t d PlayingOnActive evs
      | None \<Rightarrow> play_on world t (hd available_devices) PlayingOn evs)"

section \<open>search\_and\_play\<close>

text \<open>\<^verbatim>\<open>if search_type:\<close> holds for a value that is neither \<open>None\<close> nor the empty string.\<close>

definition override_search_type :: "string option \<Rightarrow> parsed_query \<Rightarrow> parsed_query" where
  "override_search_type st parsed =
     (case st of
        None \<Rightarrow> parsed
      | Some v \<Rightarrow> if v \<noteq> [] then parsed\<lparr>search_type := v\<rparr> else parsed)"

text \<open>
  Line 55, \<^verbatim>\<open>@tool\<close>: the decorator of \<^verbatim>\<open>langchain_core.tools\<close> wraps the function into a tool
  object and the module binds the name \<^verbatim>\<open>search_and_play\<close> to that object. The body of the
  function is what the object runs when a caller invokes the tool with \<open>query\<close>,
  \<open>search_type\<close> and \<open>retrying\<close>. Line 132, \<^verbatim>\<open>search_and_play(query, retrying=True)\<close>, looks the
  name up when it runs and so calls the tool object, not the function: the object does not
  take the keyword \<open>retrying\<close> in a direct call, and Python raises \<open>TypeError\<close> before the body
  is entered again. \<open>tool_call\<close> is that call.
\<close>

definition tool_call :: "string \<Rightarrow> bool \<Rightarrow> event list \<Rightarrow> (exn + bool) \<times> event list" where
  "tool_call query retrying evs = (Inl TypeError, evs)"

text \<open>
  The body of the function, with the log of effects threaded through. The call of line 132
  stands inside the \<^verbatim>\<open>try\<close> block, so the handler \<^verbatim>\<open>except Exception as e\<close> receives what the
  launch raises and also what that call raises. The calls of the Spotify client stand outside
  every \<^verbatim>\<open>try\<close>.
\<close>

definition search_and_play ::
  "env \<Rightarrow> string \<Rightarrow> string option \<Rightarrow> bool \<Rightarrow> event list \<Rightarrow> (exn + bool) \<times> event list" where
  "search_and_play world query st retrying log0 =
     (let log1 = log0 @ [Invoked query retrying];
          parsed_query = override_search_type st (parse_query query)
      in case sp_search world (song parsed_query) ''track'' 20 log1 of
           (Inl e, log2) \<Rightarrow> (Inl e, log2)
         | (Inr tracks, log2) \<Rightarrow>
             (case rank parsed_query tracks of
                Inl e \<Rightarrow> (Inl e, log2)
              | Inr None \<Rightarrow> (Inr False, log2 @ [Print (NoTrackFound query)])
              | Inr (Some most_relevant_track) \<Rightarrow>
                  (case sp_devices world log2 of
                     (Inl e, log3) \<Rightarrow> (Inl e, log3)
                   | (Inr available_devices, log3) \<Rightarrow>
                       if available_devices \<noteq> []
                       then dispatch world most_relevant_track available_devices log3
                       else if \<not> retrying
                       then (case subprocess_run world
                                    (log3 @ [Print NoDevices, Print AttemptingLaunch]) of
                               (Inl e, log4) \<Rightarrow> (Inr False, log4 @ [Print (FailedToLaunch e)])
                             | (Inr u, log4) \<Rightarrow>
                                 (case tool_call query True
                                         (log4 @ [Print AppLaunched, Sleep 5]) of
                                    (Inl e, log5) \<Rightarrow>
                                      (Inr False, log5 @ [Print (FailedToLaunch e)])
                                  | (Inr r, log5) \<Rightarrow> (Inr r, log5)))
                       else (Inr False, log3 @ [Print NoDevicesAfterRetrying]))))"

section \<open>Sample data\<close>

text \<open>Tracks and parsed queries for the concrete instances below.\<close>

definition mk_track :: "string \<Rightarrow> string \<Rightarrow> track" where
  "mk_track n a = \<lparr>uri = ''spotify:track:'' @ n, name = n, artists = [a]\<rparr>"

definition mk_query :: "string \<Rightarrow> string option \<Rightarrow> parsed_query" where
  "mk_query s a = \<lparr>song = s, artist = a, search_type = ''track''\<rparr>"

text \<open>A world in which every call succeeds, the search finds one track and no device is
  listed; and a device with a given id.\<close>

definition calm_world :: env where
  "calm_world =
     \<lparr>search_api = (\<lambda>k q ty limit. Inr [mk_track ''Imagine'' ''John Lennon'']),
      devices_api = (\<lambda>k. Inr []),
      start_playback_api = (\<lambda>k d uris. Inr ()),
      launch_api = (\<lambda>k. Inr ())\<rparr>"

definition mk_device :: "string \<Rightarrow> bool \<Rightarrow> device" where
  "mk_device i act = \<lparr>device_id = i, device_name = ''device '' @ i, is_active = act\<rparr>"

text \<open>Worlds in which one call of the Spotify client fails: the search, the device listing,
  the playback call; and a world that lists two devices and plays.\<close>

definition failing_search_world :: env where
  "failing_search_world = calm_world\<lparr>search_api := (\<lambda>k q ty limit. Inl TransportError)\<rparr>"

definition failing_devices_world :: env where
  "failing_devices_world = calm_world\<lparr>devices_api := (\<lambda>k. Inl TransportError)\<rparr>"

definition failing_play_world :: env where
  "failing_play_world =
     calm_world\<lparr>devices_api := (\<lambda>k. Inr [mk_device ''d1'' True]),
                start_playback_api := (\<lambda>k d uris. Inl TransportError)\<rparr>"

definition playing_world :: env where
  "playing_world =
     calm_world\<lparr>devices_api := (\<lambda>k. Inr [mk_device ''d1'' False, mk_device ''d2'' True])\<rparr>"

section \<open>Properties of search\_and\_play\<close>

subsection \<open>The log only grows\<close>

lemma song_override [simp]: "song (override_search_type st p) = song p"
  by (simp add: override_search_type_def split: option.splits)

lemma artist_override [simp]: "artist (override_search_type st p) = artist p"
  by (simp add: override_search_type_def split: option.splits)

lemma rank_override [simp]: "rank (override_search_type st p) tracks = rank p tracks"
  by (simp add: rank_def filtered_def artist_given_def split: sum.splits)

lemma play_on_extends: "\<exists>suf. snd (play_on world t d msg evs) = evs @ suf"
  by (simp add: play_on_def sp_start_playback_def split: sum.splits list.splits)

lemma dispatch_extends: "\<exists>suf. snd (dispatch world t ds evs) = evs @ suf"
  by (simp add: dispatch_def play_on_extends split: option.splits)

lemma sap_prefix:
  "\<exists>suf. snd (search_and_play world q st r evs) =
     evs @ Invoked q r # Search (song (parse_query q)) ''track'' 20 # suf"
proof -
  have d: "\<exists>suf. snd (dispatch world t ds
        (evs @ [Invoked q b, Search (song (parse_query q)) ''track'' 20, Devices])) =
      evs @ Invoked q b # Search (song (parse_query q)) ''track'' 20 # suf" for t ds b
  proof -
    from dispatch_extends[of world t ds
        "evs @ [Invoked q b, Search (song (parse_query q)) ''track'' 20, Devices]"]
    obtain suf where "snd (dispatch world t ds
          (evs @ [Invoked q b, Search (song (parse_query q)) ''track'' 20, Devices])) =
        (evs @ [Invoked q b, Search (song (parse_query q)) ''track'' 20, Devices]) @ suf"
      by blast
    then show ?thesis by simp
  qed
  show ?thesis
    unfolding search_and_play_def
    by (simp add: Let_def sp_search_def sp_devices_def subprocess_run_def tool_call_def d
        split: sum.splits option.splits prod.splits)
qed

subsection \<open>The search type argument\<close>

text \<open>
  Claim C10. The argument \<open>search_type\<close> has no effect on what \<^verbatim>\<open>search_and_play\<close> does: two runs
  that differ only in it give the same result and the same log of effects, and the search
  request, the first call of every run, asks for the parsed song with the literal type
  \<^verbatim>\<open>'track'\<close> and the limit 20. The field \<^verbatim>\<open>parsed_query['search_type']\<close> that the argument
  overrides is never read.
\<close>

theorem search_type_has_no_effect:
  "search_and_play world query st1 retrying evs = search_and_play world query st2 retrying evs
   \<and> take (length evs + 2) (snd (search_and_play world query st1 retrying evs)) =
       evs @ [Invoked query retrying, Search (song (parse_query query)) ''track'' 20]"
proof
  show "search_and_play world query st1 retrying evs = search_and_play world query st2 retrying evs"
    unfolding search_and_play_def
    by (simp cong: prod.case_cong sum.case_cong)
  from sap_prefix[of world query st1 retrying evs]
  show "take (length evs + 2) (snd (search_and_play world query st1 retrying evs)) =
       evs @ [Invoked query retrying, Search (song (parse_query query)) ''track'' 20]"
    by auto
qed

section \<open>Properties of the selection step\<close>

lemma filter_by_artist_Inr:
  "filter_by_artist a ts = Inr kept \<Longrightarrow>
     (\<forall>t\<in>set ts. artists t \<noteq> []) \<and>
     kept = filter (\<lambda>t. 6 / 10 < calculate_similarity a (hd (artists t))) ts"
proof (induction ts arbitrary: kept)
  case Nil
  then show ?case by simp
next
  case (Cons t ts)
  then show ?case
    by (cases "artists t"; cases "filter_by_artist a ts") (auto split: if_splits)
qed

lemma select_track_first_max:
  assumes "select_track s ts (m, h) = (m', h')"
  shows "if \<forall>t\<in>set ts. calculate_similarity s (name t) \<le> h
         then m' = m \<and> h' = h
         else \<exists>pre c post. ts = pre @ c # post \<and> m' = Some c
                \<and> h' = calculate_similarity s (name c) \<and> h < h'
                \<and> (\<forall>x\<in>set pre. calculate_similarity s (name x) < h')
                \<and> (\<forall>x\<in>set post. calculate_similarity s (name x) \<le> h')"
  using assms
proof (induction ts arbitrary: m h)
  case Nil
  then show ?case by simp
next
  case (Cons t ts)
  let ?sim = "\<lambda>x. calculate_similarity s (name x)"
  show ?case
  proof (cases "h < ?sim t")
    case True
    with Cons.prems have r: "select_track s ts (Some t, ?sim t) = (m', h')"
      by (simp add: Let_def)
    note ih = Cons.IH[OF r]
    show ?thesis
    proof (cases "\<forall>x\<in>set ts. ?sim x \<le> ?sim t")
      case all: True
      with ih have "m' = Some t" "h' = ?sim t" by auto
      with True all have "t # ts = [] @ t # ts \<and> m' = Some t \<and> h' = ?sim t \<and> h < h'
          \<and> (\<forall>x\<in>set []. ?sim x < h') \<and> (\<forall>x\<in>set ts. ?sim x \<le> h')" by simp
      then have "\<exists>pre c post. t # ts = pre @ c # post \<and> m' = Some c \<and> h' = ?sim c \<and> h < h'
          \<and> (\<forall>x\<in>set pre. ?sim x < h') \<and> (\<forall>x\<in>set post. ?sim x \<le> h')" by blast
      with True show ?thesis by auto
    next
      case False
      with ih obtain pre c post where p: "ts = pre @ c # post" "m' = Some c" "h' = ?sim c"
        "?sim t < h'" "\<forall>x\<in>set pre. ?sim x < h'" "\<forall>x\<in>set post. ?sim x \<le> h'"
        by auto
      then have "t # ts = (t # pre) @ c # post \<and> m' = Some c \<and> h' = ?sim c \<and> h < h'
          \<and> (\<forall>x\<in>set (t # pre). ?sim x < h') \<and> (\<forall>x\<in>set post. ?sim x \<le> h')"
        using True by auto
      then have "\<exists>pre c post. t # ts = pre @ c # post \<and> m' = Some c \<and> h' = ?sim c \<and> h < h'
          \<and> (\<forall>x\<in>set pre. ?sim x < h') \<and> (\<forall>x\<in>set post. ?sim x \<le> h')" by blast
      with True show ?thesis by auto
    qed
  next
    case nlt: False
    with Cons.prems have r: "select_track s ts (m, h) = (m', h')"
      by (simp add: Let_def)
    note ih = Cons.IH[OF r]
    show ?thesis
    proof (cases "\<forall>x\<in>set ts. ?sim x \<le> h")
      case True
      with ih nlt show ?thesis by auto
    next
      case False
      with ih obtain pre c post where p: "ts = pre @ c # post" "m' = Some c" "h' = ?sim c"
        "h < h'" "\<forall>x\<in>set pre. ?sim x < h'" "\<forall>x\<in>set post. ?sim x \<le> h'"
        by auto
      then have "t # ts = (t # pre) @ c # post \<and> m' = Some c \<and> h' = ?sim c \<and> h < h'
          \<and> (\<forall>x\<in>set (t # pre). ?sim x < h') \<and> (\<forall>x\<in>set post. ?sim x \<le> h')"
        using nlt by auto
      then have "\<exists>pre c post. t # ts = pre @ c # post \<and> m' = Some c \<and> h' = ?sim c \<and> h < h'
          \<and> (\<forall>x\<in>set pre. ?sim x < h') \<and> (\<forall>x\<in>set post. ?sim x \<le> h')" by blast
      with False show ?thesis by auto
    qed
  qed
qed

text \<open>
  Claim C3, as amended. When some candidate that the selection loop sees has a similarity
  above 0 to the parsed song, \<open>rank\<close> returns the candidate whose track name is most similar
  to the parsed song, and of several with that similarity the one seen first: every candidate
  before the returned one is strictly less similar, every candidate after it at most as
  similar (the comparison is the strict \<open>>\<close>). \<open>rank\<close> is a function of the parsed query and
  the candidate list alone, so equal inputs give equal selections.

  The claim as stated speaks of every candidate list. The loop starts from
  \<^verbatim>\<open>highest_similarity = 0\<close> and compares with \<open>>\<close>, so in a list whose candidates all have the
  similarity 0 every candidate has the greatest similarity and none is selected: for the song
  \<open>U2\<close> and the single candidate \<open>One\<close>, \<open>rank\<close> returns \<open>None\<close>.
\<close>

theorem rank_selects_first_maximum:
  assumes "filtered parsed tracks = Inr kept"
  shows "(rank parsed tracks = Inr (Some c) \<longrightarrow>
           (\<exists>pre post. kept = pre @ c # post
              \<and> (\<forall>x\<in>set pre. calculate_similarity (song parsed) (name x)
                                < calculate_similarity (song parsed) (name c))
              \<and> (\<forall>x\<in>set post. calculate_similarity (song parsed) (name x)
                                \<le> calculate_similarity (song parsed) (name c))))
       \<and> ((\<exists>t\<in>set kept. 0 < calculate_similarity (song parsed) (name t)) \<longrightarrow>
           (\<exists>c. rank parsed tracks = Inr (Some c)))"
proof -
  obtain m' h' where sel: "select_track (song parsed) kept (None, 0) = (m', h')"
    by (cases "select_track (song parsed) kept (None, 0)") auto
  have r: "rank parsed tracks = Inr m'"
    using assms sel by (simp add: rank_def)
  note fm = select_track_first_max[OF sel]
  show ?thesis
  proof (cases "\<forall>t\<in>set kept. calculate_similarity (song parsed) (name t) \<le> 0")
    case True
    with fm have "m' = None" by simp
    with r True show ?thesis by (auto simp: not_less)
  next
    case False
    with fm obtain pre c' post where p: "kept = pre @ c' # post" "m' = Some c'"
      "h' = calculate_similarity (song parsed) (name c')"
      "\<forall>x\<in>set pre. calculate_similarity (song parsed) (name x) < h'"
      "\<forall>x\<in>set post. calculate_similarity (song parsed) (name x) \<le> h'"
      by auto
    then show ?thesis using r by auto
  qed
qed

theorem rank_selects_first_maximum_witness:
  "filtered (mk_query ''Imagine'' None)
     [mk_track ''Imagine live'' ''John Lennon'', mk_track ''Imagine'' ''John Lennon'',
      mk_track ''imagine'' ''A Perfect Circle''] =
     Inr [mk_track ''Imagine live'' ''John Lennon'', mk_track ''Imagine'' ''John Lennon'',
      mk_track ''imagine'' ''A Perfect Circle'']
   \<and> rank (mk_query ''Imagine'' None)
     [mk_track ''Imagine live'' ''John Lennon'', mk_track ''Imagine'' ''John Lennon'',
      mk_track ''imagine'' ''A Perfect Circle''] = Inr (Some (mk_track ''Imagine'' ''John Lennon''))
   \<and> (\<exists>pre post.
        [mk_track ''Imagine live'' ''John Lennon'', mk_track ''Imagine'' ''John Lennon'',
         mk_track ''imagine'' ''A Perfect Circle''] = pre @ mk_track ''Imagine'' ''John Lennon'' # post
        \<and> (\<forall>x\<in>set pre. calculate_similarity ''Imagine'' (name x)
                          < calculate_similarity ''Imagine'' ''Imagine'')
        \<and> (\<forall>x\<in>set post. calculate_similarity ''Imagine'' (name x)
                          \<le> calculate_similarity ''Imagine'' ''Imagine''))"
proof -
  let ?P = "mk_query ''Imagine'' None"
  let ?T = "[mk_track ''Imagine live'' ''John Lennon'', mk_track ''Imagine'' ''John Lennon'',
      mk_track ''imagine'' ''A Perfect Circle'']"
  have f: "filtered ?P ?T = Inr ?T" by code_simp
  have r: "rank ?P ?T = Inr (Some (mk_track ''Imagine'' ''John Lennon''))" by code_simp
  have s: "song ?P = ''Imagine''" "name (mk_track ''Imagine'' ''John Lennon'') = ''Imagine''"
    by (simp_all add: mk_query_def mk_track_def)
  from rank_selects_first_maximum[OF f, of "mk_track ''Imagine'' ''John Lennon''"] r f s
  show ?thesis by simp
qed

theorem rank_sole_candidate_counterexample:
  "filtered (mk_query ''U2'' None) [mk_track ''One'' ''U2''] = Inr [mk_track ''One'' ''U2'']
   \<and> calculate_similarity (song (mk_query ''U2'' None)) (name (mk_track ''One'' ''U2'')) = 0
   \<and> rank (mk_query ''U2'' None) [mk_track ''One'' ''U2''] = Inr None"
  by code_simp

text \<open>
  Claim C1, as amended. For a parsed query whose artist is neither \<open>None\<close> nor the empty
  string, \<open>rank\<close> returns only a candidate whose first artist's name has a similarity above
  \<open>0.6\<close> to the parsed artist; and when the artist filter keeps no candidate, the result is
  \<open>None\<close>: the unfiltered list is not used instead.

  The claim as stated speaks of every artist that is not \<open>None\<close>. The test
  \<^verbatim>\<open>if parsed_query['artist']:\<close> is false for the empty string too, which \<^verbatim>\<open>parse_query\<close>
  produces for a query such as \<^verbatim>\<open>"a by  "\<close> (the artist group matches one blank, which
  \<^verbatim>\<open>strip\<close> removes). Then no filter is applied, and the counterexample below returns a
  candidate whose artist has similarity 0 to the parsed artist.
\<close>

theorem rank_artist_filter:
  assumes "artist parsed = Some a" "a \<noteq> []"
  shows "(rank parsed tracks = Inr (Some c) \<longrightarrow>
           (\<exists>n ns. artists c = n # ns \<and> 6 / 10 < calculate_similarity a n))
       \<and> (filter_by_artist a tracks = Inr [] \<longrightarrow> rank parsed tracks = Inr None)"
proof (intro conjI impI)
  have given: "artist_given parsed" using assms by (simp add: artist_given_def)
  then have f: "filtered parsed tracks = filter_by_artist a tracks"
    using assms by (simp add: filtered_def)
  {
    assume r: "rank parsed tracks = Inr (Some c)"
    then obtain kept where k: "filter_by_artist a tracks = Inr kept"
      using f by (cases "filter_by_artist a tracks") (auto simp: rank_def)
    obtain m' h' where sel: "select_track (song parsed) kept (None, 0) = (m', h')"
      by (cases "select_track (song parsed) kept (None, 0)") auto
    have "m' = Some c" using r k f sel by (simp add: rank_def)
    with select_track_first_max[OF sel] have "c \<in> set kept"
      by (auto split: if_splits)
    moreover from filter_by_artist_Inr[OF k]
    have "\<forall>t\<in>set tracks. artists t \<noteq> []"
      and "kept = filter (\<lambda>t. 6 / 10 < calculate_similarity a (hd (artists t))) tracks"
      by auto
    ultimately have "artists c \<noteq> []" "6 / 10 < calculate_similarity a (hd (artists c))"
      by auto
    then show "\<exists>n ns. artists c = n # ns \<and> 6 / 10 < calculate_similarity a n"
      by (cases "artists c") auto
  }
  {
    assume "filter_by_artist a tracks = Inr []"
    then show "rank parsed tracks = Inr None" using f by (simp add: rank_def)
  }
qed

theorem rank_artist_filter_witness:
  "rank (mk_query ''Imagine'' (Some ''John Lennon''))
     [mk_track ''Imagine'' ''A Perfect Circle'', mk_track ''Imagine'' ''John Lennon''] =
     Inr (Some (mk_track ''Imagine'' ''John Lennon''))
   \<and> (\<exists>n ns. artists (mk_track ''Imagine'' ''John Lennon'') = n # ns
        \<and> 6 / 10 < calculate_similarity ''John Lennon'' n)
   \<and> filter_by_artist ''Beatles''
       [mk_track ''Imagine'' ''A Perfect Circle'', mk_track ''Imagine'' ''John Lennon''] = Inr []
   \<and> rank (mk_query ''Imagine'' (Some ''Beatles''))
       [mk_track ''Imagine'' ''A Perfect Circle'', mk_track ''Imagine'' ''John Lennon''] = Inr None"
proof -
  let ?T = "[mk_track ''Imagine'' ''A Perfect Circle'', mk_track ''Imagine'' ''John Lennon'']"
  have a1: "artist (mk_query ''Imagine'' (Some ''John Lennon'')) = Some ''John Lennon''"
    and a2: "artist (mk_query ''Imagine'' (Some ''Beatles'')) = Some ''Beatles''"
    by (simp_all add: mk_query_def)
  have n1: "''John Lennon'' \<noteq> []" and n2: "''Beatles'' \<noteq> []" by simp_all
  have r: "rank (mk_query ''Imagine'' (Some ''John Lennon'')) ?T =
      Inr (Some (mk_track ''Imagine'' ''John Lennon''))" by code_simp
  have e: "filter_by_artist ''Beatles'' ?T = Inr []" by code_simp
  from rank_artist_filter[OF a1 n1, of ?T "mk_track ''Imagine'' ''John Lennon''"]
       rank_artist_filter[OF a2 n2, of ?T undefined] r e
  show ?thesis by simp
qed

theorem rank_empty_artist_counterexample:
  "parse_query ''a by  '' = \<lparr>song = ''a'', artist = Some [], search_type = ''track''\<rparr>
   \<and> rank (parse_query ''a by  '') [mk_track ''a'' ''x''] = Inr (Some (mk_track ''a'' ''x''))
   \<and> artists (mk_track ''a'' ''x'') = [''x'']
   \<and> calculate_similarity [] ''x'' \<le> 6 / 10"
  by code_simp

text \<open>
  Claim C2, as amended. \<open>rank\<close> returns \<open>None\<close> exactly when no candidate of the filtered list
  has a similarity above 0 between its track name and the parsed song. That holds for the
  empty list, and also for a list whose candidates all have similarity 0: the loop starts
  from \<^verbatim>\<open>highest_similarity = 0\<close> and compares with the strict \<open>>\<close>, so such a candidate is
  never selected. The counterexample is a list of one candidate with the result \<open>None\<close>.
\<close>

theorem rank_none_iff:
  assumes "filtered parsed tracks = Inr kept"
  shows "rank parsed tracks = Inr None \<longleftrightarrow>
         (\<forall>t\<in>set kept. calculate_similarity (song parsed) (name t) \<le> 0)"
proof -
  obtain m' h' where sel: "select_track (song parsed) kept (None, 0) = (m', h')"
    by (cases "select_track (song parsed) kept (None, 0)") auto
  have r: "rank parsed tracks = Inr m'"
    using assms sel by (simp add: rank_def)
  from select_track_first_max[OF sel] r show ?thesis
    by (auto split: if_splits)
qed

theorem rank_none_iff_witness:
  "filtered (mk_query ''a'' None) [mk_track ''b'' ''x''] = Inr [mk_track ''b'' ''x'']
   \<and> rank (mk_query ''a'' None) [mk_track ''b'' ''x''] = Inr None
   \<and> calculate_similarity ''a'' ''b'' \<le> 0"
proof -
  have f1: "filtered (mk_query ''a'' None) [mk_track ''b'' ''x''] = Inr [mk_track ''b'' ''x'']"
    by code_simp
  have s: "calculate_similarity ''a'' ''b'' \<le> 0"
    by code_simp
  have n: "song (mk_query ''a'' None) = ''a''" "name (mk_track ''b'' ''x'') = ''b''"
    by (simp_all add: mk_query_def mk_track_def)
  from rank_none_iff[OF f1] s n have "rank (mk_query ''a'' None) [mk_track ''b'' ''x''] = Inr None"
    by simp
  with f1 s show ?thesis by simp
qed

theorem rank_nonempty_none_counterexample:
  "filtered (mk_query ''a'' None) [mk_track ''b'' ''x''] = Inr [mk_track ''b'' ''x'']
   \<and> [mk_track ''b'' ''x''] \<noteq> []
   \<and> rank (mk_query ''a'' None) [mk_track ''b'' ''x''] = Inr None"
  by code_simp

section \<open>Properties of the playback step\<close>

lemma find_Some_split:
  "find P xs = Some d \<Longrightarrow> \<exists>pre post. xs = pre @ d # post \<and> (\<forall>x\<in>set pre. \<not> P x) \<and> P d"
proof (induction xs)
  case Nil
  then show ?case by simp
next
  case (Cons x xs)
  show ?case
  proof (cases "P x")
    case True
    with Cons.prems have "x = d" by simp
    with True have "x # xs = [] @ d # xs \<and> (\<forall>y\<in>set []. \<not> P y) \<and> P d" by simp
    then show ?thesis by blast
  next
    case False
    with Cons obtain pre post where "xs = pre @ d # post" "\<forall>y\<in>set pre. \<not> P y" "P d"
      by auto
    with False have "x # xs = (x # pre) @ d # post \<and> (\<forall>y\<in>set (x # pre). \<not> P y) \<and> P d"
      by simp
    then show ?thesis by blast
  qed
qed

lemma play_on_success:
  assumes "start_playback_api world (calls is_play evs) (device_id d) [uri t] = Inr ()"
    and "artists t = n # ns"
  shows "play_on world t d msg evs =
     (Inr True, evs @ [StartPlayback (device_id d) [uri t],
                      Print (msg (name t) n (device_name d))])"
  using assms by (simp add: play_on_def sp_start_playback_def)

text \<open>
  Claim C4. With a track found and a device list that is not empty, the playback step issues
  the play command for the track on the first device in list order whose \<open>is_active\<close> is true,
  and on \<open>devices[0]\<close> when no device is active, and the result is \<open>True\<close>. The result is
  reached when the call of the Spotify client returns and the track has an artist to print:
  an exception of \<^verbatim>\<open>sp.start_playback\<close> leaves the function before its \<^verbatim>\<open>return True\<close>, and so
  does \<^verbatim>\<open>most_relevant_track["artists"][0]\<close> in the printed line on a track without artists.
  The instance below is the scenario of the claim: of \<open>d1\<close> (inactive) and \<open>d2\<close> (active), the
  playback is issued on \<open>d2\<close>.
\<close>

theorem dispatch_prefers_first_active:
  assumes "available_devices \<noteq> []"
    and "\<forall>d. start_playback_api world (calls is_play evs) d [uri t] = Inr ()"
    and "artists t = n # ns"
  shows "(\<exists>pre d post. available_devices = pre @ d # post
            \<and> (\<forall>x\<in>set pre. \<not> is_active x) \<and> is_active d
            \<and> dispatch world t available_devices evs =
                (Inr True, evs @ [StartPlayback (device_id d) [uri t],
                                 Print (PlayingOnActive (name t) n (device_name d))]))
       \<or> ((\<forall>x\<in>set available_devices. \<not> is_active x)
            \<and> dispatch world t available_devices evs =
                (Inr True, evs @ [StartPlayback (device_id (hd available_devices)) [uri t],
                                 Print (PlayingOn (name t) n (device_name (hd available_devices)))]))"
proof (cases "find is_active available_devices")
  case None
  then have "\<forall>x\<in>set available_devices. \<not> is_active x"
    by (simp add: find_None_iff)
  moreover have "dispatch world t available_devices evs =
      (Inr True, evs @ [StartPlayback (device_id (hd available_devices)) [uri t],
                       Print (PlayingOn (name t) n (device_name (hd available_devices)))])"
    using None assms(2,3) by (simp add: dispatch_def play_on_success)
  ultimately show ?thesis by blast
next
  case (Some d)
  from find_Some_split[OF Some] obtain pre post where
    "available_devices = pre @ d # post" "\<forall>x\<in>set pre. \<not> is_active x" "is_active d"
    by blast
  moreover have "dispatch world t available_devices evs =
      (Inr True, evs @ [StartPlayback (device_id d) [uri t],
                       Print (PlayingOnActive (name t) n (device_name d))])"
    using Some assms(2,3) by (simp add: dispatch_def play_on_success)
  ultimately show ?thesis by blast
qed

theorem dispatch_prefers_first_active_witness:
  "dispatch calm_world (mk_track ''Imagine'' ''John Lennon'')
      [mk_device ''d1'' False, mk_device ''d2'' True] [] =
     (Inr True, [StartPlayback ''d2'' [''spotify:track:Imagine''],
                 Print (PlayingOnActive ''Imagine'' ''John Lennon'' ''device d2'')])
   \<and> dispatch calm_world (mk_track ''Imagine'' ''John Lennon'')
      [mk_device ''d1'' False, mk_device ''d2'' False] [] =
     (Inr True, [StartPlayback ''d1'' [''spotify:track:Imagine''],
                 Print (PlayingOn ''Imagine'' ''John Lennon'' ''device d1'')])"
proof -
  let ?t = "mk_track ''Imagine'' ''John Lennon''"
  let ?A = "[mk_device ''d1'' False, mk_device ''d2'' True]"
  let ?B = "[mk_device ''d1'' False, mk_device ''d2'' False]"
  have ok: "\<forall>d. start_playback_api calm_world (calls is_play []) d [uri ?t] = Inr ()"
    by (simp add: calm_world_def)
  have art: "artists ?t = ''John Lennon'' # []" by (simp add: mk_track_def)
  have neA: "?A \<noteq> []" and neB: "?B \<noteq> []" by simp_all
  have fA: "find is_active ?A = Some (mk_device ''d2'' True)"
    and fB: "find is_active ?B = None"
    by (simp_all add: mk_device_def)
  from dispatch_prefers_first_active[OF neA ok art]
  have A: "dispatch calm_world ?t ?A [] =
     (Inr True, [StartPlayback ''d2'' [''spotify:track:Imagine''],
                 Print (PlayingOnActive ''Imagine'' ''John Lennon'' ''device d2'')])"
    by (auto simp: mk_device_def mk_track_def Cons_eq_append_conv)
  from dispatch_prefers_first_active[OF neB ok art]
  have B: "dispatch calm_world ?t ?B [] =
     (Inr True, [StartPlayback ''d1'' [''spotify:track:Imagine''],
                 Print (PlayingOn ''Imagine'' ''John Lennon'' ''device d1'')])"
    by (auto simp: mk_device_def mk_track_def Cons_eq_append_conv)
  from A B show ?thesis by simp
qed

section \<open>Properties of the retry\<close>

text \<open>
  Claim C5 fails on the code. With a track found, an empty device list, \<open>retrying = False\<close> and
  a launch that succeeds, the function prints that the application was launched, waits 5
  seconds and calls \<^verbatim>\<open>search_and_play(query, retrying=True)\<close>. The name is bound to the tool
  object of the decorator, the call raises \<open>TypeError\<close>, the handler of the launch prints it
  as a failure to launch the application and the function returns \<open>False\<close>. The body is
  entered once: no second search and no second device listing take place.
\<close>

theorem retry_call_raises_type_error:
  "search_and_play calm_world ''Imagine'' None False [] =
     (Inr False,
      [Invoked ''Imagine'' False, Search ''Imagine'' ''track'' 20, Devices,
       Print NoDevices, Print AttemptingLaunch, Launch, Print AppLaunched, Sleep 5,
       Print (FailedToLaunch TypeError)])
   \<and> filter is_invoked (snd (search_and_play calm_world ''Imagine'' None False [])) =
       [Invoked ''Imagine'' False]
   \<and> calls is_search (snd (search_and_play calm_world ''Imagine'' None False [])) = 1
   \<and> calls is_devices (snd (search_and_play calm_world ''Imagine'' None False [])) = 1"
  by code_simp

section \<open>Errors of the Spotify client\<close>

lemma find_in_set: "find P xs = Some d \<Longrightarrow> d \<in> set xs"
  by (induction xs) (auto split: if_splits)

lemma play_on_failure:
  assumes "start_playback_api world (calls is_play evs) (device_id d) [uri t] = Inl e"
  shows "play_on world t d msg evs = (Inl e, evs @ [StartPlayback (device_id d) [uri t]])"
  using assms by (simp add: play_on_def sp_start_playback_def)

lemma dispatch_failure:
  assumes "ds \<noteq> []"
    and "\<forall>d. start_playback_api world (calls is_play evs) d [uri t] = Inl e"
  shows "\<exists>d\<in>set ds. dispatch world t ds evs =
     (Inl e, evs @ [StartPlayback (device_id d) [uri t]])"
proof (cases "find is_active ds")
  case None
  with assms have "dispatch world t ds evs =
      (Inl e, evs @ [StartPlayback (device_id (hd ds)) [uri t]])"
    by (simp add: dispatch_def play_on_failure)
  moreover from assms(1) have "hd ds \<in> set ds" by simp
  ultimately show ?thesis by blast
next
  case (Some d)
  with assms have "dispatch world t ds evs =
      (Inl e, evs @ [StartPlayback (device_id d) [uri t]])"
    by (simp add: dispatch_def play_on_failure)
  moreover from Some have "d \<in> set ds" by (rule find_in_set)
  ultimately show ?thesis by blast
qed

text \<open>
  Claim C6. An error that a call of the Spotify client raises leaves \<^verbatim>\<open>search_and_play\<close> as
  that error, whatever the value of \<open>retrying\<close>: the function has three such calls, the
  search, the device listing and the playback call, and none of them stands inside a
  \<^verbatim>\<open>try\<close>. The run ends at the failing call: the log ends with it and nothing is printed
  after it. The statement holds for every error \<open>e\<close>, so for a \<open>TransportError\<close>.
\<close>

theorem client_error_propagates:
  "(search_api world (calls is_search evs) (song (parse_query query)) ''track'' 20 = Inl e \<longrightarrow>
      search_and_play world query st retrying evs =
        (Inl e, evs @ [Invoked query retrying, Search (song (parse_query query)) ''track'' 20]))
   \<and> (search_api world (calls is_search evs) (song (parse_query query)) ''track'' 20 = Inr tracks
        \<and> rank (parse_query query) tracks = Inr (Some t) \<longrightarrow>
       (devices_api world (calls is_devices evs) = Inl e \<longrightarrow>
          search_and_play world query st retrying evs =
            (Inl e, evs @ [Invoked query retrying,
                           Search (song (parse_query query)) ''track'' 20, Devices]))
       \<and> (devices_api world (calls is_devices evs) = Inr ds \<and> ds \<noteq> []
            \<and> (\<forall>d. start_playback_api world (calls is_play evs) d [uri t] = Inl e) \<longrightarrow>
          (\<exists>d\<in>set ds. search_and_play world query st retrying evs =
            (Inl e, evs @ [Invoked query retrying,
                           Search (song (parse_query query)) ''track'' 20, Devices,
                           StartPlayback (device_id d) [uri t]]))))"
proof (intro conjI impI)
  assume "search_api world (calls is_search evs) (song (parse_query query)) ''track'' 20 = Inl e"
  then show "search_and_play world query st retrying evs =
        (Inl e, evs @ [Invoked query retrying, Search (song (parse_query query)) ''track'' 20])"
    by (simp add: search_and_play_def Let_def sp_search_def calls_def)
next
  assume h: "search_api world (calls is_search evs) (song (parse_query query)) ''track'' 20 = Inr tracks
        \<and> rank (parse_query query) tracks = Inr (Some t)"
  assume "devices_api world (calls is_devices evs) = Inl e"
  with h show "search_and_play world query st retrying evs =
            (Inl e, evs @ [Invoked query retrying,
                           Search (song (parse_query query)) ''track'' 20, Devices])"
    by (simp add: search_and_play_def Let_def sp_search_def sp_devices_def calls_def)
next
  let ?evs3 = "evs @ [Invoked query retrying, Search (song (parse_query query)) ''track'' 20,
      Devices]"
  assume h: "search_api world (calls is_search evs) (song (parse_query query)) ''track'' 20 = Inr tracks
        \<and> rank (parse_query query) tracks = Inr (Some t)"
  assume p: "devices_api world (calls is_devices evs) = Inr ds \<and> ds \<noteq> []
            \<and> (\<forall>d. start_playback_api world (calls is_play evs) d [uri t] = Inl e)"
  have eq: "search_and_play world query st retrying evs = dispatch world t ds ?evs3"
    using h p by (simp add: search_and_play_def Let_def sp_search_def sp_devices_def calls_def)
  have "calls is_play ?evs3 = calls is_play evs" by (simp add: calls_def)
  with p have "\<forall>d. start_playback_api world (calls is_play ?evs3) d [uri t] = Inl e" by simp
  with p have "\<exists>d\<in>set ds. dispatch world t ds ?evs3 =
      (Inl e, ?evs3 @ [StartPlayback (device_id d) [uri t]])"
    by (intro dispatch_failure) simp_all
  with eq show "\<exists>d\<in>set ds. search_and_play world query st retrying evs =
            (Inl e, evs @ [Invoked query retrying,
                           Search (song (parse_query query)) ''track'' 20, Devices,
                           StartPlayback (device_id d) [uri t]])"
    by simp
qed

theorem client_error_propagates_witness:
  "search_and_play failing_search_world ''Imagine'' None False [] =
     (Inl TransportError, [Invoked ''Imagine'' False, Search ''Imagine'' ''track'' 20])
   \<and> search_and_play failing_devices_world ''Imagine'' None True [] =
     (Inl TransportError, [Invoked ''Imagine'' True, Search ''Imagine'' ''track'' 20, Devices])
   \<and> search_and_play failing_play_world ''Imagine'' None False [] =
     (Inl TransportError, [Invoked ''Imagine'' False, Search ''Imagine'' ''track'' 20, Devices,
                           StartPlayback ''d1'' [''spotify:track:Imagine'']])"
proof -
  let ?T = "[mk_track ''Imagine'' ''John Lennon'']"
  let ?t = "mk_track ''Imagine'' ''John Lennon''"
  have p: "song (parse_query ''Imagine'') = ''Imagine''" by code_simp
  have r: "rank (parse_query ''Imagine'') ?T = Inr (Some ?t)" by code_simp
  note a = client_error_propagates[of failing_search_world "[]" "''Imagine''" TransportError
      None False ?T ?t "[]"]
  note b = client_error_propagates[of failing_devices_world "[]" "''Imagine''" TransportError
      None True ?T ?t "[]"]
  note c = client_error_propagates[of failing_play_world "[]" "''Imagine''" TransportError
      None False ?T ?t "[mk_device ''d1'' True]"]
  have A: "search_and_play failing_search_world ''Imagine'' None False [] =
     (Inl TransportError, [Invoked ''Imagine'' False, Search ''Imagine'' ''track'' 20])"
    using a p by (simp add: failing_search_world_def calm_world_def)
  have B: "search_and_play failing_devices_world ''Imagine'' None True [] =
     (Inl TransportError, [Invoked ''Imagine'' True, Search ''Imagine'' ''track'' 20, Devices])"
    using b p r by (simp add: failing_devices_world_def calm_world_def)
  have C: "search_and_play failing_play_world ''Imagine'' None False [] =
     (Inl TransportError, [Invoked ''Imagine'' False, Search ''Imagine'' ''track'' 20, Devices,
                           StartPlayback ''d1'' [''spotify:track:Imagine'']])"
    using c p r by (simp add: failing_play_world_def calm_world_def mk_device_def mk_track_def)
  from A B C show ?thesis by simp
qed

section \<open>Play commands and the result\<close>

lemma play_on_result:
  "play_on world t d msg evs = (Inr b, l) \<Longrightarrow> b \<and> calls is_play l = calls is_play evs + 1"
  by (auto simp: play_on_def sp_start_playback_def calls_def split: sum.splits list.splits)

lemma dispatch_result:
  "dispatch world t ds evs = (Inr b, l) \<Longrightarrow> b \<and> calls is_play l = calls is_play evs + 1"
  by (auto simp: dispatch_def split: option.splits dest: play_on_result)

lemma sap_result:
  assumes "search_and_play world query st retrying evs = (Inr b, l)"
  shows "calls is_play l = calls is_play evs + (if b then 1 else 0)"
proof -
  have d: "\<And>t ds e. dispatch world t ds e = (Inr b, l) \<Longrightarrow>
      b \<and> calls is_play l = calls is_play e + 1"
    by (rule dispatch_result)
  from assms show ?thesis
    unfolding search_and_play_def
    by (auto simp: Let_def sp_search_def sp_devices_def subprocess_run_def tool_call_def calls_def
        split: sum.splits option.splits prod.splits if_splits dest!: d)
qed

lemma sap_result_fst:
  assumes "fst (search_and_play world query st retrying evs) = Inr b"
  shows "calls is_play (snd (search_and_play world query st retrying evs)) =
     calls is_play evs + (if b then 1 else 0)"
proof -
  from assms have "search_and_play world query st retrying evs =
      (Inr b, snd (search_and_play world query st retrying evs))"
    by (simp add: prod_eq_iff)
  then show ?thesis by (rule sap_result)
qed

text \<open>
  Claim C9. A run that returns \<open>True\<close> has issued exactly one play command, and a run that
  returns \<open>False\<close> has issued none, whatever the value of \<open>retrying\<close>. When the search returns
  and the selection step finds no track, the function prints that no track was found and
  returns \<open>False\<close> right after the search: the log of the run holds the search and the printed
  line, so no device listing and no play command.
\<close>

theorem play_command_iff_true:
  "(fst (search_and_play world query st retrying evs) = Inr True \<longrightarrow>
      calls is_play (snd (search_and_play world query st retrying evs)) = calls is_play evs + 1)
   \<and> (fst (search_and_play world query st retrying evs) = Inr False \<longrightarrow>
      calls is_play (snd (search_and_play world query st retrying evs)) = calls is_play evs)
   \<and> (search_api world (calls is_search evs) (song (parse_query query)) ''track'' 20 = Inr tracks
        \<and> rank (parse_query query) tracks = Inr None \<longrightarrow>
      search_and_play world query st retrying evs =
        (Inr False, evs @ [Invoked query retrying,
                          Search (song (parse_query query)) ''track'' 20,
                          Print (NoTrackFound query)]))"
proof (intro conjI impI)
  assume "fst (search_and_play world query st retrying evs) = Inr True"
  from sap_result_fst[OF this]
  show "calls is_play (snd (search_and_play world query st retrying evs)) = calls is_play evs + 1"
    by simp
next
  assume "fst (search_and_play world query st retrying evs) = Inr False"
  from sap_result_fst[OF this]
  show "calls is_play (snd (search_and_play world query st retrying evs)) = calls is_play evs"
    by simp
next
  assume "search_api world (calls is_search evs) (song (parse_query query)) ''track'' 20 = Inr tracks
        \<and> rank (parse_query query) tracks = Inr None"
  then show "search_and_play world query st retrying evs =
        (Inr False, evs @ [Invoked query retrying,
                          Search (song (parse_query query)) ''track'' 20,
                          Print (NoTrackFound query)])"
    by (simp add: search_and_play_def Let_def sp_search_def calls_def)
qed

theorem play_command_iff_true_witness:
  "search_and_play playing_world ''Imagine'' None False [] =
     (Inr True, [Invoked ''Imagine'' False, Search ''Imagine'' ''track'' 20, Devices,
                 StartPlayback ''d2'' [''spotify:track:Imagine''],
                 Print (PlayingOnActive ''Imagine'' ''John Lennon'' ''device d2'')])
   \<and> calls is_play (snd (search_and_play playing_world ''Imagine'' None False [])) = 1
   \<and> fst (search_and_play calm_world ''Imagine'' None True []) = Inr False
   \<and> calls is_play (snd (search_and_play calm_world ''Imagine'' None True [])) = 0
   \<and> search_and_play calm_world ''U2'' None False [] =
     (Inr False, [Invoked ''U2'' False, Search ''U2'' ''track'' 20, Print (NoTrackFound ''U2'')])"
proof -
  let ?T = "[mk_track ''Imagine'' ''John Lennon'']"
  have run: "search_and_play playing_world ''Imagine'' None False [] =
     (Inr True, [Invoked ''Imagine'' False, Search ''Imagine'' ''track'' 20, Devices,
                 StartPlayback ''d2'' [''spotify:track:Imagine''],
                 Print (PlayingOnActive ''Imagine'' ''John Lennon'' ''device d2'')])"
    by code_simp
  have no: "fst (search_and_play calm_world ''Imagine'' None True []) = Inr False"
    by code_simp
  have p: "song (parse_query ''U2'') = ''U2''" by code_simp
  have r: "rank (parse_query ''U2'') ?T = Inr None" by code_simp
  have s: "search_api calm_world (calls is_search []) (song (parse_query ''U2'')) ''track'' 20
      = Inr ?T"
    by (simp add: calm_world_def)
  note a = play_command_iff_true[of playing_world "''Imagine''" None False "[]" ?T]
  note b = play_command_iff_true[of calm_world "''Imagine''" None True "[]" ?T]
  note c = play_command_iff_true[of calm_world "''U2''" None False "[]" ?T]
  have A: "calls is_play (snd (search_and_play playing_world ''Imagine'' None False [])) = 1"
    using a run by (simp add: calls_def)
  have B: "calls is_play (snd (search_and_play calm_world ''Imagine'' None True [])) = 0"
    using b no by (simp add: calls_def)
  have C: "search_and_play calm_world ''U2'' None False [] =
     (Inr False, [Invoked ''U2'' False, Search ''U2'' ''track'' 20, Print (NoTrackFound ''U2'')])"
    using c p r s by simp
  from run no A B C show ?thesis by simp
qed

section \<open>Properties of parse\_query\<close>








































end
